theory Spec2Isabelle
  imports Main "HOL-Library.Multiset" "HOL-Library.Sublist"
begin

section \<open>Data model of the feed (src/js/app.js)\<close>

text \<open>
  A raw record of the upstream API, with the fields \<open>parseMemes\<close> reads, typed as the
  API documents them. The \<open>memes\<close> member of a response is an array whose entries are
  such records; an entry may also be \<open>null\<close> (modelled as \<open>None\<close>), on which the
  property access \<open>post.postLink\<close> throws a TypeError.
\<close>

record post =
  postLink :: string
  title :: string
  subreddit :: string
  url :: string
  ups :: int
  author :: string
  nsfw :: bool

text \<open>The object literal pushed by \<open>parseMemes\<close> (app.js, lines 145-153).\<close>

record meme =
  meme_id :: string
  meme_title :: string
  source :: string
  imageUrl :: string
  upvotes :: int
  permalink :: string
  meme_author :: string

text \<open>
  What \<open>data.memes\<close> can be: missing or falsy, a truthy value that is not iterable
  (\<open>for ... of\<close> throws a TypeError), or an array. The value returned by
  \<open>fetchMemes\<close> is \<open>null\<close> (\<open>None\<close>: transport error, bad status, unparsable body,
  all caught at lines 118-121) or the parsed body.
\<close>

datatype memes_json = NoMemes | NotIterable | MemesArray "post option list"

type_synonym response = "memes_json option"

datatype js_error = TypeError

text \<open>
  Children of the feed element. \<open>ErrorMessage m\<close> is the block written by
  \<open>showError\<close>: the message together with its "Try Again" button, whose click handler
  is \<open>reloadFeed\<close>.
\<close>

datatype element = Skeleton | MemeCard meme | ErrorMessage string

text \<open>
  The mutable fields of \<open>MemeApp\<close>, and the parts of the page it writes:
  \<open>feed\<close> is the list of children of the feed element, \<open>loadingActive\<close> the
  \<open>active\<close> class of the loading indicator, \<open>endMessageShown\<close> the display style of
  the end message. Two trace fields record the calls made to the collaborators and are
  never read by the code: \<open>requests\<close> (one entry per call of \<open>fetch\<close>: category and
  count) and \<open>rendered\<close> (one entry per card appended to the feed).
\<close>

record app =
  feed :: "element list"
  loadingActive :: bool
  endMessageShown :: bool
  isLoading :: bool
  hasMore :: bool
  currentSubredditIndex :: nat
  seenIds :: "string set"
  failedAttempts :: nat
  itemsPerPage :: nat
  requests :: "(string option \<times> nat) list"
  rendered :: "meme list"

text \<open>The two fields set in the constructor and never assigned again.\<close>

definition subreddits :: "string list" where
  "subreddits = [''ProgrammerHumor'', ''programmingmemes'', ''codingmemes'']"

definition maxFailedAttempts :: nat where
  "maxFailedAttempts = 3"

text \<open>An array read \<open>xs[i]\<close>: \<open>undefined\<close> (\<open>None\<close>) out of range.\<close>

definition js_index :: "'a list \<Rightarrow> nat \<Rightarrow> 'a option" where
  "js_index xs i = (if i < length xs then Some (xs ! i) else None)"

text \<open>
  \<open>calculateItemsPerPage\<close> for a viewport height in whole pixels:
  \<open>floor (max 6 (min 20 (ceil (h / 600) * 2.5)))\<close>, in integer arithmetic.
\<close>

definition calculateItemsPerPage :: "nat \<Rightarrow> nat" where
  "calculateItemsPerPage screenHeight =
     (let cardsPerScreen = (screenHeight + 599) div 600
      in max 6 (min 20 ((cardsPerScreen * 5) div 2)))"

text \<open>The fields as the constructor leaves them, on an empty page.\<close>

definition constructor :: "nat \<Rightarrow> app" where
  "constructor screenHeight =
     \<lparr> feed = [], loadingActive = False, endMessageShown = False,
       isLoading = False, hasMore = True, currentSubredditIndex = 0,
       seenIds = {}, failedAttempts = 0,
       itemsPerPage = calculateItemsPerPage screenHeight,
       requests = [], rendered = [] \<rparr>"

section \<open>Normalisation: \<open>parseMemes\<close>\<close>

definition toMeme :: "post \<Rightarrow> meme" where
  "toMeme p =
     \<lparr> meme_id = postLink p, meme_title = title p, source = ''r/'' @ subreddit p,
       imageUrl = url p, upvotes = ups p, permalink = postLink p,
       meme_author = author p \<rparr>"

text \<open>
  The \<open>for ... of\<close> loop of \<open>parseMemes\<close> over the entries still to visit, with the
  ledger and the array \<open>memes\<close> built so far. A \<open>null\<close> entry throws; what was added to
  the ledger before stays added.
\<close>

fun parseLoop ::
  "post option list \<Rightarrow> string set \<Rightarrow> meme list \<Rightarrow> string set \<times> (js_error + meme list)"
where
  "parseLoop [] seen memes = (seen, Inr memes)"
| "parseLoop (None # ps) seen memes = (seen, Inl TypeError)"
| "parseLoop (Some p # ps) seen memes =
     (if postLink p \<in> seen then parseLoop ps seen memes
      else if nsfw p then parseLoop ps seen memes
      else parseLoop ps (insert (postLink p) seen) (memes @ [toMeme p]))"

definition parseMemes :: "response \<Rightarrow> app \<Rightarrow> app \<times> (js_error + meme list)" where
  "parseMemes data s =
     (case data of
        None \<Rightarrow> (s, Inr [])
      | Some NoMemes \<Rightarrow> (s, Inr [])
      | Some NotIterable \<Rightarrow> (s, Inl TypeError)
      | Some (MemesArray ps) \<Rightarrow>
          (case parseLoop ps (seenIds s) [] of
             (seen, r) \<Rightarrow> (s\<lparr>seenIds := seen\<rparr>, r)))"

text \<open>
  The reading of \<open>parseMemes\<close> in the specification's words, for an array of records:
  for each raw record, drop it if it is flagged not-safe; drop it if its identifier is
  already in the ledger; otherwise add the identifier to the ledger and produce an item.
\<close>

fun spec_normalize :: "post list \<Rightarrow> string set \<Rightarrow> string set \<times> meme list" where
  "spec_normalize [] ledger = (ledger, [])"
| "spec_normalize (p # ps) ledger =
     (if nsfw p then spec_normalize ps ledger
      else if postLink p \<in> ledger then spec_normalize ps ledger
      else (case spec_normalize ps (insert (postLink p) ledger) of
              (ledger', items) \<Rightarrow> (ledger', toMeme p # items)))"

section \<open>Rendering\<close>

text \<open>
  \<open>this.feed.appendChild(this.createMemeCard(meme))\<close>: one card at the end of the feed,
  and one entry in the trace of rendered items.
\<close>

definition appendCard :: "meme \<Rightarrow> app \<Rightarrow> app" where
  "appendCard m s = s\<lparr>feed := feed s @ [MemeCard m], rendered := rendered s @ [m]\<rparr>"

definition showSkeletons :: "nat \<Rightarrow> app \<Rightarrow> app" where
  "showSkeletons n s = s\<lparr>feed := replicate n Skeleton\<rparr>"

definition showError :: "string \<Rightarrow> app \<Rightarrow> app" where
  "showError message s = s\<lparr>feed := [ErrorMessage message]\<rparr>"

text \<open>The synchronous part of \<open>fetchMemes\<close>: the request leaves.\<close>

definition sendRequest :: "string option \<Rightarrow> nat \<Rightarrow> app \<Rightarrow> app" where
  "sendRequest sub n s = s\<lparr>requests := requests s @ [(sub, n)]\<rparr>"

section \<open>Incremental load: \<open>loadMore\<close>\<close>

text \<open>
  \<open>loadMore\<close> is an async function with one suspension point, the \<open>await\<close> of
  \<open>fetchMemes\<close>. \<open>loadMore_begin\<close> is what runs when it is called, up to that point;
  its second component says whether a fetch is now in flight. \<open>loadMore_resume\<close> is what
  runs when the fetch settles with \<open>data\<close>, from the state of that moment.
\<close>

definition loadMore_begin :: "app \<Rightarrow> app \<times> bool" where
  "loadMore_begin s =
     (if isLoading s \<or> \<not> hasMore s then (s, False)
      else (sendRequest (js_index subreddits (currentSubredditIndex s)) (itemsPerPage s)
              (s\<lparr>isLoading := True, loadingActive := True\<rparr>), True))"

text \<open>Lines 319-326: rotate the category, then stop the feed at the threshold.\<close>

definition rotateAndCheck :: "app \<Rightarrow> app" where
  "rotateAndCheck s =
     (let s1 = s\<lparr>currentSubredditIndex :=
                   (currentSubredditIndex s + 1) mod length subreddits\<rparr>
      in if failedAttempts s1 \<ge> maxFailedAttempts
         then s1\<lparr>hasMore := False, endMessageShown := True\<rparr>
         else s1)"

text \<open>The body of the \<open>try\<close> block after the await; \<open>Some e\<close> is a throw.\<close>

definition loadMore_try :: "response \<Rightarrow> app \<Rightarrow> app \<times> js_error option" where
  "loadMore_try data s =
     (case data of
        None \<Rightarrow> (rotateAndCheck (s\<lparr>failedAttempts := failedAttempts s + 1\<rparr>), None)
      | Some d \<Rightarrow>
          (case parseMemes data s of
             (s1, Inl e) \<Rightarrow> (s1, Some e)
           | (s1, Inr memes) \<Rightarrow>
               (if length memes > 0
                then (rotateAndCheck ((fold appendCard memes s1)\<lparr>failedAttempts := 0\<rparr>), None)
                else (rotateAndCheck (s1\<lparr>failedAttempts := failedAttempts s1 + 1\<rparr>), None))))"

definition loadMore_resume :: "response \<Rightarrow> app \<Rightarrow> app" where
  "loadMore_resume data s =
     (let s2 = (case loadMore_try data s of
                  (s1, None) \<Rightarrow> s1
                | (s1, Some e) \<Rightarrow> s1\<lparr>failedAttempts := failedAttempts s1 + 1\<rparr>)
      in s2\<lparr>isLoading := False, loadingActive := False\<rparr>)"

text \<open>A call of \<open>loadMore\<close> whose fetch settles with \<open>data\<close> before anything else runs.\<close>

definition loadMore :: "response \<Rightarrow> app \<Rightarrow> app" where
  "loadMore data s =
     (case loadMore_begin s of
        (s1, False) \<Rightarrow> s1
      | (s1, True) \<Rightarrow> loadMore_resume data s1)"

section \<open>Shuffle: \<open>shuffleArray\<close>\<close>

text \<open>
  The destructuring swap \<open>[array[i], array[j]] = [array[j], array[i]]\<close>: both reads come
  first, then the write to \<open>i\<close>, then the write to \<open>j\<close>.
\<close>

definition swap :: "nat \<Rightarrow> nat \<Rightarrow> 'a list \<Rightarrow> 'a list" where
  "swap i j xs = xs[i := xs ! j, j := xs ! i]"

text \<open>
  The loop \<open>for (let i = array.length - 1; i > 0; i--)\<close>. The draw
  \<open>Math.floor(Math.random() * (i + 1))\<close> is taken from the environment: \<open>rnd i\<close> is the
  index \<open>j\<close> drawn in the iteration with loop index \<open>i\<close>. Since \<open>Math.random()\<close> lies in
  \<open>[0, 1)\<close>, the draw lies in \<open>{0..i}\<close>; \<open>draws_ok\<close> says so for an array of length
  \<open>n\<close>.
\<close>

fun shuffle_loop :: "(nat \<Rightarrow> nat) \<Rightarrow> nat \<Rightarrow> 'a list \<Rightarrow> 'a list" where
  "shuffle_loop rnd 0 xs = xs"
| "shuffle_loop rnd (Suc i) xs = shuffle_loop rnd i (swap (Suc i) (rnd (Suc i)) xs)"

definition shuffleArray :: "(nat \<Rightarrow> nat) \<Rightarrow> 'a list \<Rightarrow> 'a list" where
  "shuffleArray rnd xs = shuffle_loop rnd (length xs - 1) xs"

definition draws_ok :: "nat \<Rightarrow> (nat \<Rightarrow> nat) \<Rightarrow> bool" where
  "draws_ok n rnd = (\<forall>i<n. rnd i \<le> i)"



section \<open>Initial load: \<open>loadInitialMemes\<close>, and reload\<close>

text \<open>
  What \<open>loadInitialMemes\<close> does when called, before its first suspension point.
\<close>

definition loadInitialMemes_begin :: "app \<Rightarrow> app" where
  "loadInitialMemes_begin s = s\<lparr>isLoading := True, failedAttempts := 0\<rparr>"

text \<open>
  The loop over the categories (lines 167-174), with the categories still to fetch and
  the array \<open>allMemes\<close> built so far; \<open>fetched sub\<close> is what the request for category
  \<open>sub\<close> settles with. A throw of \<open>parseMemes\<close> leaves the loop, and the function.
\<close>

fun collectMemes ::
  "(string \<Rightarrow> response) \<Rightarrow> string list \<Rightarrow> meme list \<Rightarrow> app \<Rightarrow> app \<times> (js_error + meme list)"
where
  "collectMemes fetched [] allMemes s = (s, Inr allMemes)"
| "collectMemes fetched (sub # subs) allMemes s =
     (let s0 = sendRequest (Some sub) 10 s in
      case fetched sub of
        None \<Rightarrow> collectMemes fetched subs allMemes s0
      | Some d \<Rightarrow>
          (case parseMemes (Some d) s0 of
             (s1, Inl e) \<Rightarrow> (s1, Inl e)
           | (s1, Inr memes) \<Rightarrow> collectMemes fetched subs (allMemes @ memes) s1))"

text \<open>
  An initial load that runs to its end with no other handler changing the fields in
  between. The second component is \<open>Some e\<close> when the returned promise is rejected:
  nothing catches a throw here, so the fields stay as the throw left them.
\<close>

definition loadInitialMemes ::
  "(string \<Rightarrow> response) \<Rightarrow> (nat \<Rightarrow> nat) \<Rightarrow> app \<Rightarrow> app \<times> js_error option"
where
  "loadInitialMemes fetched rnd s =
     (case collectMemes fetched subreddits [] (loadInitialMemes_begin s) of
        (s1, Inl e) \<Rightarrow> (s1, Some e)
      | (s1, Inr collected) \<Rightarrow>
          (let allMemes = shuffleArray rnd collected;
               s2 = s1\<lparr>feed := []\<rparr>
           in if length allMemes = 0
              then ((showError ''No memes found. Please try again later.'' s2)
                      \<lparr>isLoading := False\<rparr>, None)
              else ((fold appendCard (take (itemsPerPage s2) allMemes) s2)
                      \<lparr>isLoading := False\<rparr>, None)))"

text \<open>
  Lines 370-376 of \<open>reloadFeed\<close> (the click handler of the reload button, lines 344-350,
  is the same text): everything before the call of \<open>loadInitialMemes\<close>.
\<close>

definition resetSession :: "app \<Rightarrow> app" where
  "resetSession s =
     showSkeletons (itemsPerPage s)
       (s\<lparr>hasMore := True, currentSubredditIndex := 0, seenIds := {},
          failedAttempts := 0, endMessageShown := False, feed := []\<rparr>)"

definition reloadFeed ::
  "(string \<Rightarrow> response) \<Rightarrow> (nat \<Rightarrow> nat) \<Rightarrow> app \<Rightarrow> app \<times> js_error option"
where
  "reloadFeed fetched rnd s = loadInitialMemes fetched rnd (resetSession s)"

text \<open>The method \<open>setup\<close> of the class: skeletons, then the initial load.\<close>

definition setupApp ::
  "(string \<Rightarrow> response) \<Rightarrow> (nat \<Rightarrow> nat) \<Rightarrow> app \<Rightarrow> app \<times> js_error option"
where
  "setupApp fetched rnd s = loadInitialMemes fetched rnd (showSkeletons (itemsPerPage s) s)"

section \<open>Frame of the category loop\<close>

text \<open>
  \<open>ledger_and_requests_only s t\<close>: from \<open>s\<close> to \<open>t\<close> nothing but the ledger and the
  trace of requests may have changed.
\<close>

definition ledger_and_requests_only :: "app \<Rightarrow> app \<Rightarrow> bool" where
  "ledger_and_requests_only s t =
     (feed t = feed s \<and> loadingActive t = loadingActive s
      \<and> endMessageShown t = endMessageShown s \<and> isLoading t = isLoading s
      \<and> hasMore t = hasMore s \<and> currentSubredditIndex t = currentSubredditIndex s
      \<and> failedAttempts t = failedAttempts s \<and> itemsPerPage t = itemsPerPage s
      \<and> rendered t = rendered s)"

section \<open>Sessions\<close>

text \<open>
  A session is what happens between two resets of the ledger: a sequence of loads, each
  run to its end before the next is called.
\<close>

datatype load = Initial "string \<Rightarrow> response" "nat \<Rightarrow> nat" | More response

fun runLoad :: "load \<Rightarrow> app \<Rightarrow> app" where
  "runLoad (Initial fetched rnd) s = fst (loadInitialMemes fetched rnd s)"
| "runLoad (More data) s = loadMore data s"

definition runLoads :: "load list \<Rightarrow> app \<Rightarrow> app" where
  "runLoads loads s = fold runLoad loads s"

text \<open>The draws of an initial load lie in range, whatever the length of the array.\<close>

fun load_ok :: "load \<Rightarrow> bool" where
  "load_ok (Initial fetched rnd) = (\<forall>i. rnd i \<le> i)"
| "load_ok (More data) = True"

text \<open>The items handed to the feed since a state whose trace had length \<open>k\<close>.\<close>

definition renderedSince :: "app \<Rightarrow> app \<Rightarrow> meme list" where
  "renderedSince s0 s = drop (length (rendered s0)) (rendered s)"

section \<open>Viewport trigger: \<open>setupInfiniteScroll\<close>\<close>

text \<open>
  The observer callback for one entry (line 270); the scroll fallback (line 282) has the
  same shape, with \<open>isNearBottom()\<close> for \<open>entry.isIntersecting\<close>.
\<close>

definition onIntersect :: "bool \<Rightarrow> app \<Rightarrow> app \<times> bool" where
  "onIntersect isIntersecting s =
     (if isIntersecting \<and> \<not> isLoading s \<and> hasMore s then loadMore_begin s else (s, False))"

section \<open>Theme preference (src/js/theme.js)\<close>

text \<open>
  The field \<open>theme\<close> of \<open>ThemeManager\<close> and what it writes: the \<open>theme\<close> key of
  \<open>localStorage\<close> (\<open>None\<close> when \<open>getItem\<close> returns \<open>null\<close>), the \<open>data-theme\<close>
  attribute of the document and the content of the theme-color meta element.
\<close>

record themeManager =
  theme :: string
  storedTheme :: "string option"
  dataTheme :: "string option"
  metaThemeColor :: "string option"

text \<open>Truthiness of what \<open>getItem\<close> returns: a non-empty string.\<close>

fun truthy :: "string option \<Rightarrow> bool" where
  "truthy None = False"
| "truthy (Some t) = (t \<noteq> [])"

definition getInitialTheme :: "string option \<Rightarrow> bool \<Rightarrow> bool \<Rightarrow> string" where
  "getInitialTheme savedTheme hasMatchMedia prefersLight =
     (if truthy savedTheme then the savedTheme
      else if hasMatchMedia \<and> prefersLight then ''light''
      else ''dark'')"

definition applyTheme :: "string \<Rightarrow> themeManager \<Rightarrow> themeManager" where
  "applyTheme t m =
     m\<lparr>dataTheme := Some t, theme := t, storedTheme := Some t,
       metaThemeColor := Some (if t = ''dark'' then ''#161b22'' else ''#f6f8fa'')\<rparr>"

definition toggle :: "themeManager \<Rightarrow> themeManager" where
  "toggle m = applyTheme (if theme m = ''dark'' then ''light'' else ''dark'') m"

text \<open>
  The listener registered by \<open>watchSystemTheme\<close>; \<open>matches\<close> is \<open>e.matches\<close> of the
  query \<open>(prefers-color-scheme: dark)\<close>.
\<close>

definition onSystemThemeChange :: "bool \<Rightarrow> themeManager \<Rightarrow> themeManager" where
  "onSystemThemeChange matches m =
     (if \<not> truthy (storedTheme m) then applyTheme (if matches then ''dark'' else ''light'') m
      else m)"

text \<open>
  The constructor with \<open>init\<close>, for a given content of the storage key and a given
  system preference.
\<close>

definition newThemeManager :: "string option \<Rightarrow> bool \<Rightarrow> bool \<Rightarrow> themeManager" where
  "newThemeManager savedTheme hasMatchMedia prefersLight =
     applyTheme (getInitialTheme savedTheme hasMatchMedia prefersLight)
       \<lparr> theme = getInitialTheme savedTheme hasMatchMedia prefersLight,
         storedTheme = savedTheme, dataTheme = None, metaThemeColor = None \<rparr>"

datatype theme_event = ToggleClick | SystemChange bool

fun themeStep :: "theme_event \<Rightarrow> themeManager \<Rightarrow> themeManager" where
  "themeStep ToggleClick m = toggle m"
| "themeStep (SystemChange matches) m = onSystemThemeChange matches m"

section \<open>Example inputs\<close>

text \<open>A record of the upstream API with a given identifier and not-safe flag.\<close>

definition examplePost :: "string \<Rightarrow> bool \<Rightarrow> post" where
  "examplePost link flag =
     \<lparr> postLink = link, title = ''title'', subreddit = ''ProgrammerHumor'',
       url = ''https://i.redd.it/x.png'', ups = 42, author = ''someone'', nsfw = flag \<rparr>"

text \<open>
  A session: the initial fetches return two records for the first category, nothing for
  the second and two records for the third, one of them seen already; an incremental
  load then returns one record seen already and a new one.
\<close>

definition exampleFetched :: "string \<Rightarrow> response" where
  "exampleFetched sub =
     (if sub = ''ProgrammerHumor''
      then Some (MemesArray [Some (examplePost ''a'' False), Some (examplePost ''b'' False)])
      else if sub = ''codingmemes''
      then Some (MemesArray [Some (examplePost ''a'' False), Some (examplePost ''c'' False)])
      else None)"

definition exampleSession :: "load list" where
  "exampleSession =
     [Initial exampleFetched (\<lambda>i. 0),
      More (Some (MemesArray [Some (examplePost ''a'' False), Some (examplePost ''d'' False)]))]"

section \<open>Properties\<close>

subsection \<open>The normalisation loop\<close>

lemma parseLoop_acc:
  "parseLoop ps seen acc =
     (case parseLoop ps seen [] of
        (sn, Inl e) \<Rightarrow> (sn, Inl e)
      | (sn, Inr ms) \<Rightarrow> (sn, Inr (acc @ ms)))"
proof (induction ps arbitrary: seen acc)
  case Nil
  show ?case by simp
next
  case (Cons x ps)
  show ?case
  proof (cases x)
    case None
    then show ?thesis by simp
  next
    case (Some p)
    have a: "parseLoop ps (insert (postLink p) seen) (acc @ [toMeme p]) =
      (case parseLoop ps (insert (postLink p) seen) [] of
         (sn, Inl e) \<Rightarrow> (sn, Inl e)
       | (sn, Inr ms) \<Rightarrow> (sn, Inr ((acc @ [toMeme p]) @ ms)))"
      by (rule Cons.IH)
    have b: "parseLoop ps (insert (postLink p) seen) [toMeme p] =
      (case parseLoop ps (insert (postLink p) seen) [] of
         (sn, Inl e) \<Rightarrow> (sn, Inl e)
       | (sn, Inr ms) \<Rightarrow> (sn, Inr ([toMeme p] @ ms)))"
      by (rule Cons.IH)
    show ?thesis
      using Some Cons.IH[of seen acc] a b
      by (simp split: prod.splits sum.splits)
  qed
qed

text \<open>The loop on an array of records is the specification's filter.\<close>

lemma parseLoop_normalize:
  "parseLoop (map Some ps) seen [] =
     (fst (spec_normalize ps seen), Inr (snd (spec_normalize ps seen)))"
proof (induction ps arbitrary: seen)
  case Nil
  show ?case by simp
next
  case (Cons p ps)
  show ?case
    using Cons.IH[of seen] Cons.IH[of "insert (postLink p) seen"]
      parseLoop_acc[of "map Some ps" "insert (postLink p) seen" "[toMeme p]"]
    by (simp split: prod.splits)
qed

lemma normalize_snoc:
  "spec_normalize (ps @ [p]) seen =
     (case spec_normalize ps seen of
        (ledger, items) \<Rightarrow>
          if nsfw p \<or> postLink p \<in> ledger then (ledger, items)
          else (insert (postLink p) ledger, items @ [toMeme p]))"
  by (induction ps arbitrary: seen) (auto split: prod.splits)

text \<open>What a completed run of the filter kept.\<close>

lemma normalize_kept:
  "\<exists>kept. subseq kept ps \<and> snd (spec_normalize ps seen) = map toMeme kept
     \<and> fst (spec_normalize ps seen) = seen \<union> postLink ` set kept
     \<and> distinct (map postLink kept)
     \<and> (\<forall>p\<in>set kept. \<not> nsfw p \<and> postLink p \<notin> seen)"
proof (induction ps arbitrary: seen)
  case Nil
  show ?case by simp
next
  case (Cons p ps)
  show ?case
  proof (cases "nsfw p \<or> postLink p \<in> seen")
    case True
    obtain kept where k: "subseq kept ps" "snd (spec_normalize ps seen) = map toMeme kept"
      "fst (spec_normalize ps seen) = seen \<union> postLink ` set kept"
      "distinct (map postLink kept)" "\<forall>p\<in>set kept. \<not> nsfw p \<and> postLink p \<notin> seen"
      using Cons.IH[of seen] by blast
    have "subseq kept (p # ps)" using k(1) by (rule list_emb_Cons)
    with k True show ?thesis by auto
  next
    case False
    obtain kept where k: "subseq kept ps"
      "snd (spec_normalize ps (insert (postLink p) seen)) = map toMeme kept"
      "fst (spec_normalize ps (insert (postLink p) seen)) = insert (postLink p) seen \<union> postLink ` set kept"
      "distinct (map postLink kept)"
      "\<forall>q\<in>set kept. \<not> nsfw q \<and> postLink q \<notin> insert (postLink p) seen"
      using Cons.IH[of "insert (postLink p) seen"] by blast
    have s: "subseq (p # kept) (p # ps)" using k(1) by simp
    have d: "distinct (map postLink (p # kept))" using k(4,5) by auto
    have n: "spec_normalize (p # ps) seen =
       (fst (spec_normalize ps (insert (postLink p) seen)), toMeme p # snd (spec_normalize ps (insert (postLink p) seen)))"
      using False by (simp split: prod.splits)
    show ?thesis
      apply (rule exI[of _ "p # kept"])
      using s d n k False by auto
  qed
qed

text \<open>
  With \<open>null\<close> entries allowed: the ledger only grows, and a run that returns has added
  exactly the identifiers of the items it returns, each of them new and only once.
\<close>

lemma parseLoop_result:
  "parseLoop ps seen [] = (sn, r) \<Longrightarrow>
     seen \<subseteq> sn \<and>
     (\<forall>ms. r = Inr ms \<longrightarrow>
        sn = seen \<union> meme_id ` set ms \<and> distinct (map meme_id ms)
        \<and> meme_id ` set ms \<inter> seen = {})"
proof (induction ps arbitrary: seen sn r)
  case Nil
  then show ?case by auto
next
  case (Cons x ps)
  show ?case
  proof (cases x)
    case None
    with Cons.prems show ?thesis by auto
  next
    case (Some p)
    show ?thesis
    proof (cases "postLink p \<in> seen \<or> nsfw p")
      case True
      with Some Cons.prems have "parseLoop ps seen [] = (sn, r)"
        by (simp split: if_splits)
      then show ?thesis by (rule Cons.IH)
    next
      case False
      obtain sn' r' where rec: "parseLoop ps (insert (postLink p) seen) [] = (sn', r')"
        by (cases "parseLoop ps (insert (postLink p) seen) []") 
      have ih: "insert (postLink p) seen \<subseteq> sn' \<and>
         (\<forall>ms. r' = Inr ms \<longrightarrow>
            sn' = insert (postLink p) seen \<union> meme_id ` set ms \<and> distinct (map meme_id ms)
            \<and> meme_id ` set ms \<inter> insert (postLink p) seen = {})"
        using rec by (rule Cons.IH)
      have "parseLoop (x # ps) seen [] = parseLoop ps (insert (postLink p) seen) [toMeme p]"
        using Some False by simp
      also have "\<dots> = (case r' of Inl e \<Rightarrow> (sn', Inl e) | Inr ms \<Rightarrow> (sn', Inr (toMeme p # ms)))"
        using parseLoop_acc[of ps "insert (postLink p) seen" "[toMeme p]"] rec
        by (simp split: sum.splits)
      finally have res: "(sn, r) = (case r' of Inl e \<Rightarrow> (sn', Inl e) | Inr ms \<Rightarrow> (sn', Inr (toMeme p # ms)))"
        using Cons.prems by simp
      have idp: "meme_id (toMeme p) = postLink p" by (simp add: toMeme_def)
      show ?thesis
      proof (cases r')
        case (Inl e)
        with res ih show ?thesis by auto
      next
        case (Inr ms')
        with res have "sn = sn'" "r = Inr (toMeme p # ms')" by auto
        with ih Inr idp False show ?thesis by auto
      qed
    qed
  qed
qed

lemma parseMemes_result:
  assumes "parseMemes data s = (s1, r)"
  shows "s1 = s\<lparr>seenIds := seenIds s1\<rparr>"
    and "seenIds s \<subseteq> seenIds s1"
    and "r = Inr ms \<Longrightarrow> seenIds s1 = seenIds s \<union> meme_id ` set ms"
    and "r = Inr ms \<Longrightarrow> distinct (map meme_id ms)"
    and "r = Inr ms \<Longrightarrow> meme_id ` set ms \<inter> seenIds s = {}"
proof -
  have all: "s1 = s\<lparr>seenIds := seenIds s1\<rparr> \<and> seenIds s \<subseteq> seenIds s1 \<and>
     (\<forall>ms. r = Inr ms \<longrightarrow> seenIds s1 = seenIds s \<union> meme_id ` set ms
        \<and> distinct (map meme_id ms) \<and> meme_id ` set ms \<inter> seenIds s = {})"
  proof (cases data)
    case None
    with assms show ?thesis by (auto simp: parseMemes_def)
  next
    case (Some d)
    show ?thesis
    proof (cases d)
      case NoMemes
      with Some assms show ?thesis by (auto simp: parseMemes_def)
    next
      case NotIterable
      with Some assms show ?thesis by (auto simp: parseMemes_def)
    next
      case (MemesArray ps)
      obtain sn r' where pl: "parseLoop ps (seenIds s) [] = (sn, r')"
        by (cases "parseLoop ps (seenIds s) []")
      with Some MemesArray assms have eq: "s1 = s\<lparr>seenIds := sn\<rparr>" "r = r'"
        by (auto simp: parseMemes_def)
      from parseLoop_result[OF pl] eq show ?thesis by simp
    qed
  qed
  from all show "s1 = s\<lparr>seenIds := seenIds s1\<rparr>" by blast
  from all show "seenIds s \<subseteq> seenIds s1" by blast
  from all show "r = Inr ms \<Longrightarrow> seenIds s1 = seenIds s \<union> meme_id ` set ms" by blast
  from all show "r = Inr ms \<Longrightarrow> distinct (map meme_id ms)" by blast
  from all show "r = Inr ms \<Longrightarrow> meme_id ` set ms \<inter> seenIds s = {}" by blast
qed

lemma parseMemes_empty:
  assumes "parseMemes data s = (s1, Inr [])"
  shows "s1 = s"
proof -
  have "seenIds s1 = seenIds s" using parseMemes_result(3)[OF assms, of "[]"] by simp
  moreover have "s1 = s\<lparr>seenIds := seenIds s1\<rparr>" using parseMemes_result(1)[OF assms] .
  ultimately show ?thesis by simp
qed

text \<open>The outcome of \<open>parseMemes\<close> depends on the ledger alone.\<close>

lemma parseMemes_ledger_only:
  "seenIds t = seenIds s \<Longrightarrow>
     snd (parseMemes data t) = snd (parseMemes data s) \<and>
     seenIds (fst (parseMemes data t)) = seenIds (fst (parseMemes data s))"
  by (auto simp: parseMemes_def split: option.splits memes_json.splits prod.splits)

lemma fold_appendCard:
  "fold appendCard ms s = s\<lparr>feed := feed s @ map MemeCard ms, rendered := rendered s @ ms\<rparr>"
  by (induction ms arbitrary: s) (simp_all add: appendCard_def)

subsection \<open>The incremental load, case by case\<close>

lemma rotateAndCheck_fields:
  "failedAttempts (rotateAndCheck s) = failedAttempts s"
  "currentSubredditIndex (rotateAndCheck s) = (currentSubredditIndex s + 1) mod length subreddits"
  "seenIds (rotateAndCheck s) = seenIds s"
  "rendered (rotateAndCheck s) = rendered s"
  "requests (rotateAndCheck s) = requests s"
  "hasMore (rotateAndCheck s) = (hasMore s \<and> failedAttempts s < maxFailedAttempts)"
  "endMessageShown (rotateAndCheck s) = (endMessageShown s \<or> maxFailedAttempts \<le> failedAttempts s)"
  by (auto simp: rotateAndCheck_def Let_def)

lemma loadMore_resume_absent:
  "loadMore_resume None s =
     (rotateAndCheck (s\<lparr>failedAttempts := failedAttempts s + 1\<rparr>))
       \<lparr>isLoading := False, loadingActive := False\<rparr>"
  by (simp add: loadMore_resume_def loadMore_try_def)

lemma loadMore_resume_empty:
  assumes "snd (parseMemes data s) = Inr []"
  shows "loadMore_resume data s = loadMore_resume None s"
proof (cases data)
  case None
  then show ?thesis by simp
next
  case (Some d)
  obtain s1 where p: "parseMemes data s = (s1, Inr [])"
    using assms by (cases "parseMemes data s") simp
  have "s1 = s" using p by (rule parseMemes_empty)
  with p Some show ?thesis
    by (simp add: loadMore_resume_def loadMore_try_def)
qed

lemma loadMore_resume_items:
  assumes "parseMemes data s = (s1, Inr ms)" and "ms \<noteq> []"
  shows "loadMore_resume data s =
     (rotateAndCheck ((fold appendCard ms s1)\<lparr>failedAttempts := 0\<rparr>))
       \<lparr>isLoading := False, loadingActive := False\<rparr>"
proof (cases data)
  case None
  with assms show ?thesis by (simp add: parseMemes_def)
next
  case (Some d)
  with assms show ?thesis
    by (simp add: loadMore_resume_def loadMore_try_def)
qed

lemma loadMore_resume_throw:
  assumes "parseMemes data s = (s1, Inl e)"
  shows "loadMore_resume data s =
     s1\<lparr>failedAttempts := failedAttempts s1 + 1, isLoading := False, loadingActive := False\<rparr>"
proof (cases data)
  case None
  with assms show ?thesis by (simp add: parseMemes_def)
next
  case (Some d)
  with assms show ?thesis
    by (simp add: loadMore_resume_def loadMore_try_def)
qed

lemma loadMore_begin_blocked:
  "isLoading s \<or> \<not> hasMore s \<Longrightarrow> loadMore_begin s = (s, False)"
  by (simp add: loadMore_begin_def)

lemma loadMore_blocked:
  "isLoading s \<or> \<not> hasMore s \<Longrightarrow> loadMore data s = s"
  by (simp add: loadMore_def loadMore_begin_def)

lemma loadMore_begin_open:
  "\<not> isLoading s \<Longrightarrow> hasMore s \<Longrightarrow>
   loadMore_begin s =
     (s\<lparr>isLoading := True, loadingActive := True,
        requests := requests s @
          [(js_index subreddits (currentSubredditIndex s), itemsPerPage s)]\<rparr>, True)"
  by (simp add: loadMore_begin_def sendRequest_def)

lemma loadMore_open:
  "\<not> isLoading s \<Longrightarrow> hasMore s \<Longrightarrow>
   loadMore data s =
     loadMore_resume data
       (s\<lparr>isLoading := True, loadingActive := True,
          requests := requests s @
            [(js_index subreddits (currentSubredditIndex s), itemsPerPage s)]\<rparr>)"
  by (simp add: loadMore_def loadMore_begin_open)

lemma loadMore_resume_idle:
  "\<not> isLoading (loadMore_resume data s) \<and> \<not> loadingActive (loadMore_resume data s)"
  by (simp add: loadMore_resume_def Let_def)

text \<open>One executed load that yields no item: the streak grows by one.\<close>

lemma loadMore_miss:
  assumes "\<not> isLoading s" and "hasMore s" and "snd (parseMemes data s) = Inr []"
  shows "failedAttempts (loadMore data s) = failedAttempts s + 1"
    and "\<not> isLoading (loadMore data s)"
    and "hasMore (loadMore data s) = (failedAttempts s + 1 < maxFailedAttempts)"
    and "endMessageShown (loadMore data s) =
           (endMessageShown s \<or> maxFailedAttempts \<le> failedAttempts s + 1)"
    and "seenIds (loadMore data s) = seenIds s"
    and "loadMore data s = loadMore None s"
proof -
  let ?t = "s\<lparr>isLoading := True, loadingActive := True,
          requests := requests s @
            [(js_index subreddits (currentSubredditIndex s), itemsPerPage s)]\<rparr>"
  have "snd (parseMemes data ?t) = snd (parseMemes data s)"
    using parseMemes_ledger_only[of ?t s data] by simp
  then have e: "snd (parseMemes data ?t) = Inr []" using assms(3) by simp
  have l: "loadMore data s = loadMore_resume None ?t"
    using loadMore_open[OF assms(1,2)] loadMore_resume_empty[OF e] by simp
  show "loadMore data s = loadMore None s"
    using l loadMore_open[OF assms(1,2), of None] by simp
  show "failedAttempts (loadMore data s) = failedAttempts s + 1"
    by (simp add: l loadMore_resume_absent rotateAndCheck_fields)
  show "\<not> isLoading (loadMore data s)"
    by (simp add: l loadMore_resume_absent)
  show "hasMore (loadMore data s) = (failedAttempts s + 1 < maxFailedAttempts)"
    using assms(2) by (simp add: l loadMore_resume_absent rotateAndCheck_fields)
  show "endMessageShown (loadMore data s) =
           (endMessageShown s \<or> maxFailedAttempts \<le> failedAttempts s + 1)"
    by (simp add: l loadMore_resume_absent rotateAndCheck_fields)
  show "seenIds (loadMore data s) = seenIds s"
    by (simp add: l loadMore_resume_absent rotateAndCheck_fields)
qed

lemma loadMore_hit:
  assumes "\<not> isLoading s" and "hasMore s"
    and "snd (parseMemes data s) = Inr ms" and "ms \<noteq> []"
  shows "failedAttempts (loadMore data s) = 0"
    and "currentSubredditIndex (loadMore data s) =
           (currentSubredditIndex s + 1) mod length subreddits"
proof -
  let ?t = "s\<lparr>isLoading := True, loadingActive := True,
          requests := requests s @
            [(js_index subreddits (currentSubredditIndex s), itemsPerPage s)]\<rparr>"
  have "snd (parseMemes data ?t) = snd (parseMemes data s)"
    using parseMemes_ledger_only[of ?t s data] by simp
  then obtain t1 where p: "parseMemes data ?t = (t1, Inr ms)"
    using assms(3) by (cases "parseMemes data ?t") simp
  have t1: "t1 = ?t\<lparr>seenIds := seenIds t1\<rparr>" using p by (rule parseMemes_result(1))
  have l: "loadMore data s =
     (rotateAndCheck ((fold appendCard ms t1)\<lparr>failedAttempts := 0\<rparr>))
       \<lparr>isLoading := False, loadingActive := False\<rparr>"
    using loadMore_open[OF assms(1,2)] loadMore_resume_items[OF p assms(4)] by simp
  show "failedAttempts (loadMore data s) = 0"
    by (simp add: l rotateAndCheck_fields)
  have "currentSubredditIndex t1 = currentSubredditIndex s"
    by (subst t1) simp
  then show "currentSubredditIndex (loadMore data s) =
           (currentSubredditIndex s + 1) mod length subreddits"
    by (simp add: l rotateAndCheck_fields fold_appendCard)
qed

lemma loadMore_miss_cursor:
  assumes "\<not> isLoading s" and "hasMore s" and "snd (parseMemes data s) = Inr []"
  shows "currentSubredditIndex (loadMore data s) =
           (currentSubredditIndex s + 1) mod length subreddits"
proof -
  have "loadMore data s = loadMore None s" using assms by (rule loadMore_miss(6))
  then show ?thesis
    using loadMore_open[OF assms(1,2), of None]
    by (simp add: loadMore_resume_absent rotateAndCheck_fields)
qed

text \<open>
  Claim C3. Whenever \<open>loadMore\<close> is invoked while \<open>isLoading\<close> is true or \<open>hasMore\<close>
  is false, it returns at once: no fetch is issued, nothing is rendered, and the whole
  state (the trace of requests and of rendered items included) is the state it was
  called in; the viewport trigger does nothing there either. Two calls in a row from an
  idle state, the second while the first is in flight, add exactly one request to the
  trace: the first call sends it and sets \<open>isLoading\<close>, the second is refused.
\<close>

theorem loadMore_guard_noop:
  "(isLoading s \<or> \<not> hasMore s \<longrightarrow>
      loadMore_begin s = (s, False) \<and> loadMore data s = s \<and> onIntersect b s = (s, False))
   \<and> (\<not> isLoading s \<and> hasMore s \<longrightarrow>
      (\<exists>s1. loadMore_begin s = (s1, True)
         \<and> requests s1 = requests s @
             [(js_index subreddits (currentSubredditIndex s), itemsPerPage s)]
         \<and> loadMore_begin s1 = (s1, False)
         \<and> onIntersect b s1 = (s1, False)))"
proof (intro conjI impI)
  assume g: "isLoading s \<or> \<not> hasMore s"
  show "loadMore_begin s = (s, False)" using g by (rule loadMore_begin_blocked)
  show "loadMore data s = s" using g by (rule loadMore_blocked)
  show "onIntersect b s = (s, False)" using g by (auto simp: onIntersect_def)
next
  assume g: "\<not> isLoading s \<and> hasMore s"
  let ?s1 = "s\<lparr>isLoading := True, loadingActive := True,
        requests := requests s @
          [(js_index subreddits (currentSubredditIndex s), itemsPerPage s)]\<rparr>"
  have a: "loadMore_begin s = (?s1, True)" using g by (simp add: loadMore_begin_open)
  have b: "loadMore_begin ?s1 = (?s1, False)" by (simp add: loadMore_begin_blocked)
  have c: "onIntersect b ?s1 = (?s1, False)" by (simp add: onIntersect_def)
  show "\<exists>s1. loadMore_begin s = (s1, True)
         \<and> requests s1 = requests s @
             [(js_index subreddits (currentSubredditIndex s), itemsPerPage s)]
         \<and> loadMore_begin s1 = (s1, False)
         \<and> onIntersect b s1 = (s1, False)"
    using a b c by (intro exI[of _ ?s1]) simp
qed

theorem loadMore_guard_noop_witness:
  "loadMore_begin ((constructor 800)\<lparr>isLoading := True\<rparr>)
     = ((constructor 800)\<lparr>isLoading := True\<rparr>, False)
   \<and> loadMore None ((constructor 800)\<lparr>hasMore := False\<rparr>)
     = (constructor 800)\<lparr>hasMore := False\<rparr>
   \<and> (\<exists>s1. loadMore_begin (constructor 800) = (s1, True)
         \<and> requests s1 = [(Some ''ProgrammerHumor'', 6)]
         \<and> loadMore_begin s1 = (s1, False))"
proof -
  let ?busy = "(constructor 800)\<lparr>isLoading := True\<rparr>"
  let ?done = "(constructor 800)\<lparr>hasMore := False\<rparr>"
  have h1: "isLoading ?busy \<or> \<not> hasMore ?busy" by simp
  have h2: "isLoading ?done \<or> \<not> hasMore ?done" by simp
  have h3: "\<not> isLoading (constructor 800) \<and> hasMore (constructor 800)"
    by (simp add: constructor_def)
  have r: "requests (constructor 800) @
      [(js_index subreddits (currentSubredditIndex (constructor 800)),
        itemsPerPage (constructor 800))] = [(Some ''ProgrammerHumor'', 6)]"
    by (simp add: constructor_def calculateItemsPerPage_def js_index_def subreddits_def)
  have c1: "loadMore_begin ?busy = (?busy, False)"
    using loadMore_guard_noop[of ?busy None True] h1 by blast
  have c2: "loadMore None ?done = ?done"
    using loadMore_guard_noop[of ?done None True] h2 by blast
  have c3: "\<exists>s1. loadMore_begin (constructor 800) = (s1, True)
         \<and> requests s1 = [(Some ''ProgrammerHumor'', 6)]
         \<and> loadMore_begin s1 = (s1, False)"
    using loadMore_guard_noop[of "constructor 800" None True] h3 unfolding r by blast
  from c1 c2 c3 show ?thesis by blast
qed

text \<open>
  Claim C10. Whatever the fetch settles with (absent, no item, some items, a response on
  which normalisation throws) and whatever the state is at that moment, the continuation
  of \<open>loadMore\<close> ends with \<open>isLoading\<close> false and the loading indicator inactive; so
  does every call of \<open>loadMore\<close> that passes the guard and whose fetch settles.
\<close>

theorem loadMore_ends_idle:
  "\<not> isLoading (loadMore_resume data t) \<and> \<not> loadingActive (loadMore_resume data t)
   \<and> (\<not> isLoading s \<and> hasMore s \<longrightarrow>
        \<not> isLoading (loadMore data s) \<and> \<not> loadingActive (loadMore data s))"
  using loadMore_resume_idle[of data t] loadMore_open[of s data] loadMore_resume_idle
  by auto

theorem loadMore_ends_idle_witness:
  "\<not> isLoading (constructor 800) \<and> hasMore (constructor 800)
   \<and> \<not> isLoading (loadMore (Some NotIterable) (constructor 800))
   \<and> \<not> loadingActive (loadMore (Some NotIterable) (constructor 800))
   \<and> failedAttempts (loadMore (Some NotIterable) (constructor 800)) = 1
   \<and> currentSubredditIndex (loadMore (Some NotIterable) (constructor 800)) = 0"
  using loadMore_ends_idle[of "Some NotIterable" "constructor 800" "constructor 800"]
  by (simp add: constructor_def loadMore_def loadMore_begin_def loadMore_resume_def
      loadMore_try_def parseMemes_def sendRequest_def)

text \<open>
  Claim C7. In an executed incremental load, an absent fetch result and a present one
  whose normalisation returns no item are treated alike: \<open>parseMemes\<close> returns the
  empty list on the absent result too, \<open>failedAttempts\<close> grows by exactly one, and the
  final state is the very state the absent result leads to. A load whose normalisation
  returns at least one item sets \<open>failedAttempts\<close> to 0. In all these cases the cursor
  moves to the next category, modulo the number of categories.
\<close>

theorem loadMore_failure_streak:
  assumes "\<not> isLoading s" and "hasMore s"
  shows "(snd (parseMemes data s) = Inr [] \<longrightarrow>
            failedAttempts (loadMore data s) = failedAttempts s + 1
            \<and> loadMore data s = loadMore None s)
     \<and> (\<forall>ms. snd (parseMemes data s) = Inr ms \<and> ms \<noteq> [] \<longrightarrow>
            failedAttempts (loadMore data s) = 0)
     \<and> (\<forall>ms. snd (parseMemes data s) = Inr ms \<longrightarrow>
            currentSubredditIndex (loadMore data s) =
              (currentSubredditIndex s + 1) mod length subreddits)
     \<and> snd (parseMemes None s) = Inr []"
proof (intro conjI impI allI)
  assume e: "snd (parseMemes data s) = Inr []"
  show "failedAttempts (loadMore data s) = failedAttempts s + 1"
    using assms e by (rule loadMore_miss(1))
  show "loadMore data s = loadMore None s"
    using assms e by (rule loadMore_miss(6))
next
  fix ms assume "snd (parseMemes data s) = Inr ms \<and> ms \<noteq> []"
  then show "failedAttempts (loadMore data s) = 0"
    using assms loadMore_hit(1) by blast
next
  fix ms assume p: "snd (parseMemes data s) = Inr ms"
  show "currentSubredditIndex (loadMore data s) =
              (currentSubredditIndex s + 1) mod length subreddits"
  proof (cases "ms = []")
    case True
    with p assms show ?thesis using loadMore_miss_cursor by blast
  next
    case False
    with p assms show ?thesis using loadMore_hit(2) by blast
  qed
next
  show "snd (parseMemes None s) = Inr []" by (simp add: parseMemes_def)
qed

theorem loadMore_failure_streak_witness:
  "\<not> isLoading (constructor 800) \<and> hasMore (constructor 800)
   \<and> snd (parseMemes (Some NoMemes) (constructor 800)) = Inr []
   \<and> failedAttempts (loadMore (Some NoMemes) (constructor 800)) = 1
   \<and> loadMore (Some NoMemes) (constructor 800) = loadMore None (constructor 800)
   \<and> failedAttempts (loadMore (Some (MemesArray [Some (examplePost ''a'' False)]))
         ((constructor 800)\<lparr>failedAttempts := 2, currentSubredditIndex := 2\<rparr>)) = 0
   \<and> currentSubredditIndex (loadMore (Some (MemesArray [Some (examplePost ''a'' False)]))
         ((constructor 800)\<lparr>failedAttempts := 2, currentSubredditIndex := 2\<rparr>)) = 0"
proof -
  let ?s = "constructor 800"
  let ?t = "(constructor 800)\<lparr>failedAttempts := 2, currentSubredditIndex := 2\<rparr>"
  let ?d = "Some (MemesArray [Some (examplePost ''a'' False)])"
  have g: "\<not> isLoading ?s" "hasMore ?s" "\<not> isLoading ?t" "hasMore ?t"
    by (simp_all add: constructor_def)
  have e: "snd (parseMemes (Some NoMemes) ?s) = Inr []"
    by (simp add: parseMemes_def)
  have p: "snd (parseMemes ?d ?t) = Inr [toMeme (examplePost ''a'' False)]"
    by (simp add: parseMemes_def constructor_def examplePost_def)
  have f0: "failedAttempts ?s + 1 = 1" by (simp add: constructor_def)
  have c0: "(currentSubredditIndex ?t + 1) mod length subreddits = 0"
    by (simp add: subreddits_def)
  note a = loadMore_failure_streak[OF g(1,2), of "Some NoMemes"]
  note b = loadMore_failure_streak[OF g(3,4), of ?d]
  have "failedAttempts (loadMore (Some NoMemes) ?s) = failedAttempts ?s + 1"
    using a e by blast
  then have "failedAttempts (loadMore (Some NoMemes) ?s) = 1"
    by (simp only: f0)
  moreover have "loadMore (Some NoMemes) ?s = loadMore None ?s"
    using a e by blast
  moreover have "failedAttempts (loadMore ?d ?t) = 0"
    using b p by blast
  moreover have "currentSubredditIndex (loadMore ?d ?t) = 0"
    using b p c0 by metis
  ultimately show ?thesis using g e by blast
qed

text \<open>
  Claim C2. From a state with \<open>hasMore\<close> true, \<open>failedAttempts\<close> 0 and no load in
  flight, three consecutive incremental loads whose normalisation returns no item (the
  fetch result absent or not) are all executed, and after the third \<open>hasMore\<close> is
  false and the end message is shown. A fourth call of \<open>loadMore\<close>, and the viewport
  trigger, then change nothing and send no request.
\<close>

theorem exhaustion_after_three_misses:
  assumes "hasMore s" and "failedAttempts s = 0" and "\<not> isLoading s"
    and "s1 = loadMore d1 s" and "s2 = loadMore d2 s1" and "s3 = loadMore d3 s2"
    and "snd (parseMemes d1 s) = Inr []"
    and "snd (parseMemes d2 s1) = Inr []"
    and "snd (parseMemes d3 s2) = Inr []"
  shows "hasMore s1 \<and> hasMore s2 \<and> \<not> hasMore s3 \<and> endMessageShown s3
     \<and> failedAttempts s3 = 3
     \<and> length (requests s3) = length (requests s) + 3
     \<and> loadMore_begin s3 = (s3, False) \<and> onIntersect b s3 = (s3, False)
     \<and> loadMore d4 s3 = s3"
proof -
  have f1: "failedAttempts s1 = 1" "\<not> isLoading s1" "hasMore s1"
    using loadMore_miss(1,2,3)[OF assms(3) assms(1) assms(7)] assms(2,4)
    by (simp_all add: maxFailedAttempts_def)
  have f2: "failedAttempts s2 = 2" "\<not> isLoading s2" "hasMore s2"
    using loadMore_miss(1,2,3)[OF f1(2) f1(3) assms(8)] f1(1) assms(5)
    by (simp_all add: maxFailedAttempts_def)
  have f3: "failedAttempts s3 = 3" "\<not> hasMore s3" "endMessageShown s3"
    using loadMore_miss(1,3,4)[OF f2(2) f2(3) assms(9)] f2(1) assms(6)
    by (simp_all add: maxFailedAttempts_def)
  have r: "length (requests (loadMore d t)) = length (requests t) + 1"
    if "\<not> isLoading t" "hasMore t" "snd (parseMemes d t) = Inr []" for d t
  proof -
    have "loadMore d t = loadMore None t" using that by (rule loadMore_miss(6))
    then show ?thesis
      using loadMore_open[OF that(1,2), of None]
      by (simp add: loadMore_resume_absent rotateAndCheck_fields)
  qed
  have len: "length (requests s3) = length (requests s) + 3"
    using r[OF assms(3) assms(1) assms(7)] r[OF f1(2) f1(3) assms(8)]
      r[OF f2(2) f2(3) assms(9)] assms(4,5,6) by simp
  have n1: "loadMore_begin s3 = (s3, False)" using f3(2) by (simp add: loadMore_begin_blocked)
  have n2: "onIntersect b s3 = (s3, False)" using f3(2) by (simp add: onIntersect_def)
  have n3: "loadMore d4 s3 = s3" using f3(2) by (simp add: loadMore_blocked)
  from f1 f2 f3 len n1 n2 n3 show ?thesis by blast
qed

theorem exhaustion_after_three_misses_witness:
  "hasMore (constructor 800) \<and> failedAttempts (constructor 800) = 0
   \<and> \<not> isLoading (constructor 800)
   \<and> snd (parseMemes None (constructor 800)) = Inr []
   \<and> snd (parseMemes (Some (MemesArray [Some (examplePost ''a'' True)]))
        (loadMore None (constructor 800))) = Inr []
   \<and> snd (parseMemes (Some NoMemes)
        (loadMore (Some (MemesArray [Some (examplePost ''a'' True)]))
          (loadMore None (constructor 800)))) = Inr []
   \<and> \<not> hasMore (loadMore (Some NoMemes)
        (loadMore (Some (MemesArray [Some (examplePost ''a'' True)]))
          (loadMore None (constructor 800))))
   \<and> endMessageShown (loadMore (Some NoMemes)
        (loadMore (Some (MemesArray [Some (examplePost ''a'' True)]))
          (loadMore None (constructor 800))))
   \<and> loadMore (Some (MemesArray [Some (examplePost ''b'' False)]))
        (loadMore (Some NoMemes)
          (loadMore (Some (MemesArray [Some (examplePost ''a'' True)]))
            (loadMore None (constructor 800))))
      = loadMore (Some NoMemes)
          (loadMore (Some (MemesArray [Some (examplePost ''a'' True)]))
            (loadMore None (constructor 800)))"
proof -
  let ?s = "constructor 800"
  let ?d2 = "Some (MemesArray [Some (examplePost ''a'' True)])"
  let ?d4 = "Some (MemesArray [Some (examplePost ''b'' False)])"
  let ?s1 = "loadMore None ?s"
  let ?s2 = "loadMore ?d2 ?s1"
  let ?s3 = "loadMore (Some NoMemes) ?s2"
  have g: "hasMore ?s" "failedAttempts ?s = 0" "\<not> isLoading ?s"
    by (simp_all add: constructor_def)
  have p1: "snd (parseMemes None ?s) = Inr []" by (simp add: parseMemes_def)
  have p2: "snd (parseMemes ?d2 ?s1) = Inr []"
    by (simp add: parseMemes_def examplePost_def)
  have p3: "snd (parseMemes (Some NoMemes) ?s2) = Inr []" by (simp add: parseMemes_def)
  note t = exhaustion_after_three_misses[OF g refl refl refl p1 p2 p3, of True ?d4]
  from t g p1 p2 p3 show ?thesis by blast
qed

subsection \<open>The shuffle\<close>

lemma length_swap: "length (swap i j xs) = length xs"
  by (simp add: swap_def)


lemma mset_swap_list:
  "i < length xs \<Longrightarrow> j < length xs \<Longrightarrow> mset (swap i j xs) = mset xs"
  unfolding swap_def by (rule mset_swap)



lemma length_shuffle_loop: "length (shuffle_loop rnd i xs) = length xs"
  by (induction i arbitrary: xs) (simp_all add: length_swap)

lemma mset_shuffle_loop:
  "i < length xs \<Longrightarrow> \<forall>k\<le>i. rnd k \<le> k \<Longrightarrow> mset (shuffle_loop rnd i xs) = mset xs"
proof (induction i arbitrary: xs)
  case 0
  show ?case by simp
next
  case (Suc i)
  have j: "rnd (Suc i) < length xs" using Suc.prems by (meson le_less_trans le_refl)
  have "mset (shuffle_loop rnd i (swap (Suc i) (rnd (Suc i)) xs))
      = mset (swap (Suc i) (rnd (Suc i)) xs)"
    using Suc.prems by (intro Suc.IH) (simp_all add: length_swap)
  also have "\<dots> = mset xs" using Suc.prems(1) j by (rule mset_swap_list)
  finally show ?case by simp
qed

lemma mset_shuffleArray:
  assumes "draws_ok (length xs) rnd"
  shows "mset (shuffleArray rnd xs) = mset xs"
proof (cases xs)
  case Nil
  then show ?thesis by (simp add: shuffleArray_def)
next
  case (Cons x xs')
  then have "length xs - 1 < length xs" by simp
  moreover have "\<forall>k\<le>length xs - 1. rnd k \<le> k"
    using assms Cons by (auto simp: draws_ok_def)
  ultimately show ?thesis unfolding shuffleArray_def by (rule mset_shuffle_loop)
qed













subsection \<open>Normalisation as a filter\<close>

lemma parseMemes_array:
  "parseMemes (Some (MemesArray (map Some ps))) s
     = (s\<lparr>seenIds := fst (spec_normalize ps (seenIds s))\<rparr>,
        Inr (snd (spec_normalize ps (seenIds s))))"
  by (simp add: parseMemes_def parseLoop_normalize)

text \<open>
  Claim C6. On an array of records, \<open>parseMemes\<close> is the filter the specification
  describes (\<open>spec_normalize\<close>), run from the current ledger. Record by record: a
  record flagged not-safe, or one whose identifier is in the ledger when its turn comes,
  changes neither the ledger nor the output; any other record has its identifier added to
  the ledger and exactly one item appended at the end of the output. So the output is the
  image of a subsequence of the input, in input order, holding no record flagged
  not-safe and none whose identifier was in the ledger, each identifier once; and the
  ledger grows by exactly the identifiers of the records kept.
\<close>

theorem parseMemes_filters_in_order:
  "parseMemes (Some (MemesArray (map Some ps))) s
     = (s\<lparr>seenIds := fst (spec_normalize ps (seenIds s))\<rparr>,
        Inr (snd (spec_normalize ps (seenIds s))))
   \<and> parseMemes (Some (MemesArray (map Some (ps @ [p])))) s
     = (case parseMemes (Some (MemesArray (map Some ps))) s of
          (s1, Inl e) \<Rightarrow> (s1, Inl e)
        | (s1, Inr items) \<Rightarrow>
            if nsfw p \<or> postLink p \<in> seenIds s1 then (s1, Inr items)
            else (s1\<lparr>seenIds := insert (postLink p) (seenIds s1)\<rparr>, Inr (items @ [toMeme p])))
   \<and> (\<exists>kept. subseq kept ps
         \<and> snd (parseMemes (Some (MemesArray (map Some ps))) s) = Inr (map toMeme kept)
         \<and> seenIds (fst (parseMemes (Some (MemesArray (map Some ps))) s))
             = seenIds s \<union> postLink ` set kept
         \<and> distinct (map postLink kept)
         \<and> (\<forall>q\<in>set kept. \<not> nsfw q \<and> postLink q \<notin> seenIds s))"
proof (intro conjI)
  show "parseMemes (Some (MemesArray (map Some ps))) s
     = (s\<lparr>seenIds := fst (spec_normalize ps (seenIds s))\<rparr>,
        Inr (snd (spec_normalize ps (seenIds s))))"
    by (rule parseMemes_array)
  show "parseMemes (Some (MemesArray (map Some (ps @ [p])))) s
     = (case parseMemes (Some (MemesArray (map Some ps))) s of
          (s1, Inl e) \<Rightarrow> (s1, Inl e)
        | (s1, Inr items) \<Rightarrow>
            if nsfw p \<or> postLink p \<in> seenIds s1 then (s1, Inr items)
            else (s1\<lparr>seenIds := insert (postLink p) (seenIds s1)\<rparr>, Inr (items @ [toMeme p])))"
    unfolding parseMemes_array
    by (simp add: normalize_snoc split: prod.splits)
  show "\<exists>kept. subseq kept ps
         \<and> snd (parseMemes (Some (MemesArray (map Some ps))) s) = Inr (map toMeme kept)
         \<and> seenIds (fst (parseMemes (Some (MemesArray (map Some ps))) s))
             = seenIds s \<union> postLink ` set kept
         \<and> distinct (map postLink kept)
         \<and> (\<forall>q\<in>set kept. \<not> nsfw q \<and> postLink q \<notin> seenIds s)"
    unfolding parseMemes_array
    using normalize_kept[of ps "seenIds s"] by simp
qed

theorem parseMemes_filters_in_order_witness:
  "parseMemes (Some (MemesArray (map Some
       [examplePost ''a'' False, examplePost ''b'' True, examplePost ''a'' False,
        examplePost ''c'' False, examplePost ''d'' False])))
     ((constructor 800)\<lparr>seenIds := {''c''}\<rparr>)
   = ((constructor 800)\<lparr>seenIds := {''a'', ''c'', ''d''}\<rparr>,
      Inr [toMeme (examplePost ''a'' False), toMeme (examplePost ''d'' False)])"
proof -
  let ?ps = "[examplePost ''a'' False, examplePost ''b'' True, examplePost ''a'' False,
        examplePost ''c'' False, examplePost ''d'' False]"
  let ?s = "(constructor 800)\<lparr>seenIds := {''c''}\<rparr>"
  have n: "spec_normalize ?ps (seenIds ?s)
        = ({''a'', ''c'', ''d''}, [toMeme (examplePost ''a'' False), toMeme (examplePost ''d'' False)])"
    by (auto simp: examplePost_def)
  show ?thesis
    using parseMemes_filters_in_order[of ?ps ?s "examplePost ''e'' False"]
    by (simp only: n fst_conv snd_conv) simp
qed

subsection \<open>What a load hands to the feed\<close>

text \<open>
  The loop over the categories changes the ledger and the trace of requests only; when
  it returns, what it collected beyond \<open>acc\<close> are items with pairwise different
  identifiers, none of them in the ledger before, all of them in the ledger after.
\<close>

lemma collectMemes_result:
  "collectMemes fetched subs acc s = (s1, r) \<Longrightarrow>
     ledger_and_requests_only s s1 \<and> seenIds s \<subseteq> seenIds s1 \<and>
     (\<forall>allMemes. r = Inr allMemes \<longrightarrow>
        (\<exists>new. allMemes = acc @ new \<and> distinct (map meme_id new)
           \<and> meme_id ` set new \<inter> seenIds s = {}
           \<and> seenIds s1 = seenIds s \<union> meme_id ` set new))"
proof (induction subs arbitrary: acc s)
  case Nil
  then show ?case by (auto simp: ledger_and_requests_only_def)
next
  case (Cons sub subs)
  let ?s0 = "sendRequest (Some sub) 10 s"
  have s0: "seenIds ?s0 = seenIds s" "ledger_and_requests_only s ?s0"
    by (simp_all add: sendRequest_def ledger_and_requests_only_def)
  show ?case
  proof (cases "fetched sub")
    case None
    then have "collectMemes fetched subs acc ?s0 = (s1, r)"
      using Cons.prems by (simp add: Let_def)
    from Cons.IH[OF this] show ?thesis
      by (simp add: sendRequest_def ledger_and_requests_only_def)
  next
    case (Some d)
    obtain t q where p: "parseMemes (Some d) ?s0 = (t, q)"
      by (cases "parseMemes (Some d) ?s0")
    note pr = parseMemes_result[OF p]
    have "ledger_and_requests_only ?s0 t"
      by (subst pr(1)) (simp add: ledger_and_requests_only_def)
    then have t: "ledger_and_requests_only s t"
      by (simp add: sendRequest_def ledger_and_requests_only_def)
    have sub: "seenIds s \<subseteq> seenIds t" using pr(2) s0(1) by simp
    show ?thesis
    proof (cases q)
      case (Inl e)
      then have "s1 = t" "r = Inl e" using Cons.prems Some p by (simp_all add: Let_def)
      then show ?thesis using t sub by simp
    next
      case (Inr memes)
      then have rec: "collectMemes fetched subs (acc @ memes) t = (s1, r)"
        using Cons.prems Some p by (simp add: Let_def)
      note ih = Cons.IH[OF rec]
      have m: "seenIds t = seenIds s \<union> meme_id ` set memes" "distinct (map meme_id memes)"
        "meme_id ` set memes \<inter> seenIds s = {}"
        using pr(3,4,5)[OF Inr] s0(1) by simp_all
      have f: "ledger_and_requests_only s s1"
        using ih t by (simp add: ledger_and_requests_only_def)
      have g: "seenIds s \<subseteq> seenIds s1" using ih sub by blast
      have h: "\<exists>new. allMemes = acc @ new \<and> distinct (map meme_id new)
           \<and> meme_id ` set new \<inter> seenIds s = {}
           \<and> seenIds s1 = seenIds s \<union> meme_id ` set new" if ret: "r = Inr allMemes" for allMemes
      proof -
        obtain new where n: "allMemes = (acc @ memes) @ new" "distinct (map meme_id new)"
          "meme_id ` set new \<inter> seenIds t = {}" "seenIds s1 = seenIds t \<union> meme_id ` set new"
          using ih ret by blast
        have "distinct (map meme_id (memes @ new))" using m n(2,3) by auto
        moreover have "meme_id ` set (memes @ new) \<inter> seenIds s = {}" using m n(3) by auto
        moreover have "seenIds s1 = seenIds s \<union> meme_id ` set (memes @ new)"
          using m n(4) by auto
        ultimately show ?thesis using n(1) by (intro exI[of _ "memes @ new"]) simp
      qed
      from f g h show ?thesis by blast
    qed
  qed
qed

lemma loadMore_resume_fresh:
  "\<exists>new. rendered (loadMore_resume data t) = rendered t @ new
     \<and> distinct (map meme_id new)
     \<and> meme_id ` set new \<inter> seenIds t = {}
     \<and> seenIds t \<union> meme_id ` set new \<subseteq> seenIds (loadMore_resume data t)"
proof -
  obtain t1 q where p: "parseMemes data t = (t1, q)" by (cases "parseMemes data t")
  note pr = parseMemes_result[OF p]
  have r1: "rendered t1 = rendered t" by (subst pr(1)) simp
  show ?thesis
  proof (cases q)
    case (Inl e)
    have "loadMore_resume data t =
       t1\<lparr>failedAttempts := failedAttempts t1 + 1, isLoading := False, loadingActive := False\<rparr>"
      using p Inl by (simp add: loadMore_resume_throw)
    then have "rendered (loadMore_resume data t) = rendered t @ []"
      "seenIds t \<subseteq> seenIds (loadMore_resume data t)"
      using r1 pr(2) by simp_all
    then show ?thesis by (intro exI[of _ "[]"]) simp
  next
    case (Inr ms)
    show ?thesis
    proof (cases "ms = []")
      case True
      then have "loadMore_resume data t = loadMore_resume None t"
        using p Inr by (simp add: loadMore_resume_empty)
      then have "rendered (loadMore_resume data t) = rendered t @ []"
        "seenIds t \<subseteq> seenIds (loadMore_resume data t)"
        by (simp_all add: loadMore_resume_absent rotateAndCheck_fields)
      then show ?thesis by (intro exI[of _ "[]"]) simp
    next
      case False
      have l: "loadMore_resume data t =
         (rotateAndCheck ((fold appendCard ms t1)\<lparr>failedAttempts := 0\<rparr>))
           \<lparr>isLoading := False, loadingActive := False\<rparr>"
        using p Inr False by (simp add: loadMore_resume_items)
      have "rendered (loadMore_resume data t) = rendered t @ ms"
        by (simp add: l rotateAndCheck_fields fold_appendCard r1)
      moreover have "seenIds (loadMore_resume data t) = seenIds t \<union> meme_id ` set ms"
        using pr(3)[OF Inr] by (simp add: l rotateAndCheck_fields fold_appendCard)
      ultimately show ?thesis
        using pr(4,5)[OF Inr] by (intro exI[of _ ms]) simp
    qed
  qed
qed

lemma loadMore_fresh:
  "\<exists>new. rendered (loadMore data s) = rendered s @ new
     \<and> distinct (map meme_id new)
     \<and> meme_id ` set new \<inter> seenIds s = {}
     \<and> seenIds s \<union> meme_id ` set new \<subseteq> seenIds (loadMore data s)"
proof (cases "isLoading s \<or> \<not> hasMore s")
  case True
  then have "loadMore data s = s" by (rule loadMore_blocked)
  then show ?thesis by (intro exI[of _ "[]"]) simp
next
  case False
  let ?t = "s\<lparr>isLoading := True, loadingActive := True,
          requests := requests s @
            [(js_index subreddits (currentSubredditIndex s), itemsPerPage s)]\<rparr>"
  have "loadMore data s = loadMore_resume data ?t"
    using False by (simp add: loadMore_open)
  then show ?thesis using loadMore_resume_fresh[of data ?t] by simp
qed

lemma loadInitialMemes_fresh:
  assumes "\<forall>i. rnd i \<le> i"
  shows "\<exists>new. rendered (fst (loadInitialMemes fetched rnd s)) = rendered s @ new
     \<and> distinct (map meme_id new)
     \<and> meme_id ` set new \<inter> seenIds s = {}
     \<and> seenIds s \<union> meme_id ` set new \<subseteq> seenIds (fst (loadInitialMemes fetched rnd s))"
proof -
  let ?b = "loadInitialMemes_begin s"
  let ?res = "fst (loadInitialMemes fetched rnd s)"
  obtain s1 r where c: "collectMemes fetched subreddits [] ?b = (s1, r)"
    by (cases "collectMemes fetched subreddits [] ?b")
  note cr = collectMemes_result[OF c]
  have b: "seenIds ?b = seenIds s" "rendered ?b = rendered s"
    by (simp_all add: loadInitialMemes_begin_def)
  have r1: "rendered s1 = rendered s" "seenIds s \<subseteq> seenIds s1"
    using cr b by (simp_all add: ledger_and_requests_only_def)
  show ?thesis
  proof (cases r)
    case (Inl e)
    then have "?res = s1" using c by (simp add: loadInitialMemes_def)
    then show ?thesis using r1 by (intro exI[of _ "[]"]) simp
  next
    case (Inr collected)
    let ?sh = "shuffleArray rnd collected"
    obtain new where n: "collected = new" "distinct (map meme_id new)"
      "meme_id ` set new \<inter> seenIds s = {}" "seenIds s1 = seenIds s \<union> meme_id ` set new"
      using cr Inr b by auto
    have ms: "mset ?sh = mset collected"
      using assms by (intro mset_shuffleArray) (simp add: draws_ok_def)
    show ?thesis
    proof (cases "length ?sh = 0")
      case True
      then have "?res = (showError ''No memes found. Please try again later.''
                     (s1\<lparr>feed := []\<rparr>))\<lparr>isLoading := False\<rparr>"
        using c Inr by (simp add: loadInitialMemes_def Let_def)
      then have "rendered ?res = rendered s @ []" "seenIds s \<subseteq> seenIds ?res"
        using r1 by (simp_all add: showError_def)
      then show ?thesis by (intro exI[of _ "[]"]) simp
    next
      case False
      let ?shown = "take (itemsPerPage s1) ?sh"
      have "?res = (fold appendCard ?shown (s1\<lparr>feed := []\<rparr>))\<lparr>isLoading := False\<rparr>"
        using c Inr False by (simp add: loadInitialMemes_def Let_def)
      then have res: "rendered ?res = rendered s @ ?shown" "seenIds ?res = seenIds s1"
        using r1 by (simp_all add: fold_appendCard)
      have "mset (map meme_id ?sh) = mset (map meme_id collected)"
        using ms by (metis mset_map)
      then have "distinct (map meme_id ?sh)"
        using n(1,2) by (metis mset_eq_imp_distinct_iff)
      then have d: "distinct (map meme_id ?shown)"
        by (simp add: take_map[symmetric])
      have "set ?shown \<subseteq> set collected"
        using ms by (metis mset_eq_setD set_take_subset)
      then have "meme_id ` set ?shown \<subseteq> meme_id ` set new" using n(1) by blast
      then have "meme_id ` set ?shown \<inter> seenIds s = {}"
        "seenIds s \<union> meme_id ` set ?shown \<subseteq> seenIds ?res"
        using n(3,4) res(2) by auto
      then show ?thesis using res(1) d by (intro exI[of _ ?shown]) simp
    qed
  qed
qed

lemma runLoad_fresh:
  assumes "load_ok l"
  shows "\<exists>new. rendered (runLoad l s) = rendered s @ new
     \<and> distinct (map meme_id new)
     \<and> meme_id ` set new \<inter> seenIds s = {}
     \<and> seenIds s \<union> meme_id ` set new \<subseteq> seenIds (runLoad l s)"
proof (cases l)
  case (Initial fetched rnd)
  then show ?thesis using assms loadInitialMemes_fresh[of rnd fetched s] by simp
next
  case (More data)
  then show ?thesis using loadMore_fresh[of data s] by simp
qed

lemma runLoads_fresh:
  "\<forall>l\<in>set loads. load_ok l \<Longrightarrow>
   \<exists>new. rendered (runLoads loads s) = rendered s @ new
     \<and> distinct (map meme_id new)
     \<and> meme_id ` set new \<inter> seenIds s = {}
     \<and> seenIds s \<union> meme_id ` set new \<subseteq> seenIds (runLoads loads s)"
proof (induction loads arbitrary: s)
  case Nil
  show ?case by (simp add: runLoads_def)
next
  case (Cons l loads)
  let ?s1 = "runLoad l s"
  have ok: "load_ok l" "\<forall>l\<in>set loads. load_ok l" using Cons.prems by simp_all
  obtain n1 where n1: "rendered ?s1 = rendered s @ n1" "distinct (map meme_id n1)"
    "meme_id ` set n1 \<inter> seenIds s = {}" "seenIds s \<union> meme_id ` set n1 \<subseteq> seenIds ?s1"
    using runLoad_fresh[OF ok(1), of s] by blast
  obtain n2 where n2: "rendered (runLoads loads ?s1) = rendered ?s1 @ n2"
    "distinct (map meme_id n2)" "meme_id ` set n2 \<inter> seenIds ?s1 = {}"
    "seenIds ?s1 \<union> meme_id ` set n2 \<subseteq> seenIds (runLoads loads ?s1)"
    using Cons.IH[OF ok(2), of ?s1] by blast
  have e: "runLoads (l # loads) s = runLoads loads ?s1" by (simp add: runLoads_def)
  have "rendered (runLoads (l # loads) s) = rendered s @ (n1 @ n2)"
    using n1(1) n2(1) e by simp
  moreover have "distinct (map meme_id (n1 @ n2))" using n1(2,4) n2(2,3) by auto
  moreover have "meme_id ` set (n1 @ n2) \<inter> seenIds s = {}" using n1(3,4) n2(3) by auto
  moreover have "seenIds s \<union> meme_id ` set (n1 @ n2) \<subseteq> seenIds (runLoads (l # loads) s)"
    using n1(4) n2(4) e by auto
  ultimately show ?case by blast
qed

text \<open>
  Claim C1. Take any sequence of loads (initial or incremental, each run to its end, the
  draws of every shuffle in range), started in any state \<open>s\<close>. The trace of rendered
  items is only extended, and among the items rendered by these loads no identifier
  occurs twice, none was in the ledger of \<open>s\<close>, and all are in the ledger afterwards.
  In particular a single load renders no item whose identifier was in the ledger when
  the load was called, and in the session that starts with the constructor's state
  (empty ledger, nothing rendered) all rendered items have different identifiers.
\<close>

theorem no_duplicate_rendered:
  assumes "\<forall>l\<in>set loads. load_ok l"
  shows "rendered (runLoads loads s) = rendered s @ renderedSince s (runLoads loads s)
     \<and> distinct (map meme_id (renderedSince s (runLoads loads s)))
     \<and> meme_id ` set (renderedSince s (runLoads loads s)) \<inter> seenIds s = {}
     \<and> meme_id ` set (renderedSince s (runLoads loads s)) \<subseteq> seenIds (runLoads loads s)
     \<and> distinct (map meme_id (rendered (runLoads loads (constructor h))))"
proof -
  have main: "rendered (runLoads loads t) = rendered t @ renderedSince t (runLoads loads t)
     \<and> distinct (map meme_id (renderedSince t (runLoads loads t)))
     \<and> meme_id ` set (renderedSince t (runLoads loads t)) \<inter> seenIds t = {}
     \<and> meme_id ` set (renderedSince t (runLoads loads t)) \<subseteq> seenIds (runLoads loads t)" for t
  proof -
    obtain new where n: "rendered (runLoads loads t) = rendered t @ new"
      "distinct (map meme_id new)" "meme_id ` set new \<inter> seenIds t = {}"
      "seenIds t \<union> meme_id ` set new \<subseteq> seenIds (runLoads loads t)"
      using runLoads_fresh[OF assms, of t] by blast
    have "renderedSince t (runLoads loads t) = new"
      by (simp add: renderedSince_def n(1))
    then show ?thesis using n by simp
  qed
  have "rendered (constructor h) = []" by (simp add: constructor_def)
  then have "rendered (runLoads loads (constructor h))
      = renderedSince (constructor h) (runLoads loads (constructor h))"
    using main[of "constructor h"] by simp
  then have "distinct (map meme_id (rendered (runLoads loads (constructor h))))"
    using main[of "constructor h"] by simp
  then show ?thesis using main[of s] by blast
qed

text \<open>The example session renders four items, in this order.\<close>

lemma exampleSession_run:
  "map meme_id (rendered (runLoads exampleSession (constructor 800))) = [''b'', ''c'', ''a'', ''d'']"
  by code_simp

theorem no_duplicate_rendered_witness:
  "list_all load_ok exampleSession
   \<and> map meme_id (rendered (runLoads exampleSession (constructor 800)))
       = [''b'', ''c'', ''a'', ''d'']
   \<and> distinct (map meme_id (rendered (runLoads exampleSession (constructor 800))))"
proof -
  have ok: "\<forall>l\<in>set exampleSession. load_ok l" by (simp add: exampleSession_def)
  have "list_all load_ok exampleSession" using ok by (simp add: list_all_iff)
  with no_duplicate_rendered[OF ok, of "constructor 800" 800] exampleSession_run
  show ?thesis by blast
qed

subsection \<open>The initial load and the reload\<close>

lemma shuffleArray_Nil: "shuffleArray rnd [] = []"
  by (simp add: shuffleArray_def)

text \<open>
  Claim C5. If the loop over the categories of an initial load returns with nothing
  collected, the load ends with the feed holding the error block alone (message and
  retry button) and \<open>isLoading\<close> false; no item is rendered, and \<open>hasMore\<close>, the end
  message and the ledger are as they were when the load was called. After a reload that
  ends this way \<open>hasMore\<close> is true and the end message is hidden.
\<close>

theorem empty_initial_load_shows_error:
  assumes "collectMemes fetched subreddits [] (loadInitialMemes_begin s) = (s1, Inr [])"
  shows "loadInitialMemes fetched rnd s
       = (s1\<lparr>feed := [ErrorMessage ''No memes found. Please try again later.''],
              isLoading := False\<rparr>, None)
     \<and> rendered (fst (loadInitialMemes fetched rnd s)) = rendered s
     \<and> hasMore (fst (loadInitialMemes fetched rnd s)) = hasMore s
     \<and> endMessageShown (fst (loadInitialMemes fetched rnd s)) = endMessageShown s
     \<and> seenIds (fst (loadInitialMemes fetched rnd s)) = seenIds s
     \<and> (s = resetSession s0 \<longrightarrow>
          hasMore (fst (reloadFeed fetched rnd s0))
          \<and> \<not> endMessageShown (fst (reloadFeed fetched rnd s0)))"
proof -
  let ?b = "loadInitialMemes_begin s"
  note cr = collectMemes_result[OF assms]
  have fr: "ledger_and_requests_only ?b s1" using cr by blast
  have sn: "seenIds s1 = seenIds ?b" using cr by auto
  have l: "loadInitialMemes fetched rnd s
       = (s1\<lparr>feed := [ErrorMessage ''No memes found. Please try again later.''],
              isLoading := False\<rparr>, None)"
    using assms by (simp add: loadInitialMemes_def shuffleArray_Nil showError_def)
  have f: "rendered (fst (loadInitialMemes fetched rnd s)) = rendered s"
    "hasMore (fst (loadInitialMemes fetched rnd s)) = hasMore s"
    "endMessageShown (fst (loadInitialMemes fetched rnd s)) = endMessageShown s"
    "seenIds (fst (loadInitialMemes fetched rnd s)) = seenIds s"
    using fr sn by (simp_all add: l ledger_and_requests_only_def loadInitialMemes_begin_def)
  have r: "hasMore (fst (reloadFeed fetched rnd s0))
          \<and> \<not> endMessageShown (fst (reloadFeed fetched rnd s0))" if "s = resetSession s0"
    using f(2,3) that by (simp add: reloadFeed_def resetSession_def showSkeletons_def)
  from l f r show ?thesis by blast
qed

theorem empty_initial_load_shows_error_witness:
  "collectMemes (\<lambda>sub. None) subreddits [] (loadInitialMemes_begin (constructor 800))
     = ((constructor 800)\<lparr>isLoading := True,
          requests := [(Some ''ProgrammerHumor'', 10), (Some ''programmingmemes'', 10),
                       (Some ''codingmemes'', 10)]\<rparr>, Inr [])
   \<and> feed (fst (loadInitialMemes (\<lambda>sub. None) (\<lambda>i. 0) (constructor 800)))
       = [ErrorMessage ''No memes found. Please try again later.'']
   \<and> hasMore (fst (loadInitialMemes (\<lambda>sub. None) (\<lambda>i. 0) (constructor 800)))
   \<and> \<not> endMessageShown (fst (loadInitialMemes (\<lambda>sub. None) (\<lambda>i. 0) (constructor 800)))
   \<and> \<not> isLoading (fst (loadInitialMemes (\<lambda>sub. None) (\<lambda>i. 0) (constructor 800)))"
proof -
  let ?s1 = "(constructor 800)\<lparr>isLoading := True,
          requests := [(Some ''ProgrammerHumor'', 10), (Some ''programmingmemes'', 10),
                       (Some ''codingmemes'', 10)]\<rparr>"
  have c: "collectMemes (\<lambda>sub. None) subreddits [] (loadInitialMemes_begin (constructor 800))
     = (?s1, Inr [])"
    by (simp add: subreddits_def loadInitialMemes_begin_def sendRequest_def constructor_def)
  note t = empty_initial_load_shows_error[OF c, of "\<lambda>i. 0" "constructor 800"]
  have h: "hasMore (constructor 800)" "\<not> endMessageShown (constructor 800)"
    by (simp_all add: constructor_def)
  have l: "loadInitialMemes (\<lambda>sub. None) (\<lambda>i. 0) (constructor 800)
       = (?s1\<lparr>feed := [ErrorMessage ''No memes found. Please try again later.''],
              isLoading := False\<rparr>, None)"
    using t by blast
  have "feed (fst (loadInitialMemes (\<lambda>sub. None) (\<lambda>i. 0) (constructor 800)))
       = [ErrorMessage ''No memes found. Please try again later.'']"
    "\<not> isLoading (fst (loadInitialMemes (\<lambda>sub. None) (\<lambda>i. 0) (constructor 800)))"
    by (simp_all add: l)
  moreover have "hasMore (fst (loadInitialMemes (\<lambda>sub. None) (\<lambda>i. 0) (constructor 800)))"
    "\<not> endMessageShown (fst (loadInitialMemes (\<lambda>sub. None) (\<lambda>i. 0) (constructor 800)))"
    using t h by simp_all
  ultimately show ?thesis using c by blast
qed

text \<open>
  Claim C4, as stated, fails on the flag \<open>isLoading\<close>: \<open>reloadFeed\<close> never assigns
  false to it. A reload called while a load is in flight leaves it true at the reset,
  and a reload called in an idle state has set it to true, by the call of
  \<open>loadInitialMemes\<close>, when it returns.
\<close>

theorem reload_leaves_isLoading_true:
  "isLoading (resetSession ((constructor 800)\<lparr>isLoading := True\<rparr>))
   \<and> isLoading (loadInitialMemes_begin (resetSession (constructor 800)))"
  by (simp add: resetSession_def showSkeletons_def loadInitialMemes_begin_def)

text \<open>
  Claim C4, amended. From any state, \<open>reloadFeed\<close> empties the ledger, sets the cursor
  and \<open>failedAttempts\<close> to 0 and \<open>hasMore\<close> to true, hides the end message and
  replaces the content of the feed by \<open>itemsPerPage\<close> skeletons, so no rendered item is
  left; \<open>isLoading\<close> and \<open>itemsPerPage\<close> are not reset. It then calls
  \<open>loadInitialMemes\<close>, which sets \<open>isLoading\<close> to true before its first fetch. After
  the reset a record is normalised as unseen, whatever the ledger held before.
\<close>

theorem reloadFeed_resets_session:
  "reloadFeed fetched rnd s = loadInitialMemes fetched rnd (resetSession s)
   \<and> resetSession s
       = \<lparr> feed = replicate (itemsPerPage s) Skeleton, loadingActive = loadingActive s,
           endMessageShown = False, isLoading = isLoading s, hasMore = True,
           currentSubredditIndex = 0, seenIds = {}, failedAttempts = 0,
           itemsPerPage = itemsPerPage s, requests = requests s, rendered = rendered s \<rparr>
   \<and> loadInitialMemes_begin (resetSession s) = (resetSession s)\<lparr>isLoading := True\<rparr>
   \<and> (\<forall>m. MemeCard m \<notin> set (feed (resetSession s)))
   \<and> (\<not> nsfw p \<longrightarrow>
        snd (parseMemes (Some (MemesArray [Some p])) (resetSession s)) = Inr [toMeme p])"
  by (simp add: reloadFeed_def resetSession_def showSkeletons_def loadInitialMemes_begin_def
      parseMemes_def)

theorem reloadFeed_resets_session_witness:
  "''a'' \<in> seenIds (runLoads exampleSession (constructor 800))
   \<and> \<not> nsfw (examplePost ''a'' False)
   \<and> seenIds (resetSession (runLoads exampleSession (constructor 800))) = {}
   \<and> snd (parseMemes (Some (MemesArray [Some (examplePost ''a'' False)]))
        (resetSession (runLoads exampleSession (constructor 800))))
       = Inr [toMeme (examplePost ''a'' False)]"
proof -
  have a: "''a'' \<in> seenIds (runLoads exampleSession (constructor 800))" by code_simp
  have n: "\<not> nsfw (examplePost ''a'' False)" by (simp add: examplePost_def)
  note t = reloadFeed_resets_session[of "\<lambda>sub. None" "\<lambda>i. 0"
      "runLoads exampleSession (constructor 800)" "examplePost ''a'' False"]
  have "seenIds (resetSession (runLoads exampleSession (constructor 800))) = {}"
    by (subst conjunct1[OF conjunct2[OF t]]) simp
  moreover have "snd (parseMemes (Some (MemesArray [Some (examplePost ''a'' False)]))
        (resetSession (runLoads exampleSession (constructor 800))))
       = Inr [toMeme (examplePost ''a'' False)]"
    using t n by blast
  ultimately show ?thesis using a n by blast
qed

subsection \<open>The theme preference\<close>

lemma getInitialTheme_nonempty: "getInitialTheme saved mm pl \<noteq> []"
  by (cases saved) (auto simp: getInitialTheme_def)

lemma stored_after_init: "truthy (storedTheme (newThemeManager saved mm pl))"
  by (simp add: newThemeManager_def applyTheme_def getInitialTheme_nonempty)

lemma stored_after_step: "truthy (storedTheme m) \<Longrightarrow> truthy (storedTheme (themeStep ev m))"
  by (cases ev) (auto simp: toggle_def applyTheme_def onSystemThemeChange_def)

lemma stored_after_events:
  "truthy (storedTheme m) \<Longrightarrow> truthy (storedTheme (fold themeStep evs m))"
  by (induction evs arbitrary: m) (simp_all add: stored_after_step)

text \<open>
  Once a manager is constructed, the key is set, and stays set under clicks and system
  events: the listener of \<open>watchSystemTheme\<close> never applies a theme.
\<close>

lemma system_change_never_applies:
  "onSystemThemeChange matches (fold themeStep evs (newThemeManager saved mm pl))
     = fold themeStep evs (newThemeManager saved mm pl)"
  using stored_after_events[OF stored_after_init, of evs saved mm pl]
  by (simp add: onSystemThemeChange_def)

text \<open>
  Claim C9 on the code, at a first visit: nothing is stored, the system prefers light.
  The constructor applies the system theme and \<open>applyTheme\<close> stores it under the key
  the listener tests. When the system then changes to dark, the listener finds the key
  set and leaves everything as it is: the theme stays light although the user never
  chose one.
\<close>

theorem system_change_ignored_without_user_choice:
  "storedTheme (newThemeManager None True True) = Some ''light''
   \<and> onSystemThemeChange True (newThemeManager None True True) = newThemeManager None True True
   \<and> theme (onSystemThemeChange True (newThemeManager None True True)) = ''light''"
  by (simp add: newThemeManager_def getInitialTheme_def applyTheme_def onSystemThemeChange_def)

end
